theory Spec2Isabelle
  imports Complex_Main "HOL-Library.AList"
begin

section \<open>Linear bleedthrough correction (cytoflow/operations/bleedthrough_linear.py)\<close>

text \<open>
  A shallow embedding of \<^verbatim>\<open>BleedthroughLinearOp.estimate\<close> and
  \<^verbatim>\<open>BleedthroughLinearOp.apply\<close>.

  Python floats are idealised as reals: the embedding follows which numbers the code
  combines and compares, not how IEEE-754 rounds them. A pandas DataFrame is its list of
  column names and its list of rows, a row giving a value for every channel name (only the
  values at the frame's columns mean anything). Python dictionaries whose iteration order
  the code depends on are association lists in iteration order; every raise of the source
  is a value of \<open>error\<close>.
\<close>

subsection \<open>Data model\<close>

type_synonym channel = string

datatype error =
    CytoflowOpError string
  | KeyError "string list"
  | TypeError string

text \<open>
  The per-channel metadata dictionary, with the two keys this module reads and writes:
  \<^verbatim>\<open>'af_median'\<close> (a float) and \<^verbatim>\<open>'linear_bleedthrough'\<close> (a dictionary from channel
  names to floats). \<open>None\<close> is an absent key.
\<close>

record channel_meta =
  af_median :: "real option"
  linear_bleedthrough :: "(channel \<rightharpoonup> real) option"

text \<open>
  A \<^verbatim>\<open>pandas.DataFrame\<close> of floats: \<^verbatim>\<open>c in df\<close> is \<open>c \<in> set (columns df)\<close>, and
  \<^verbatim>\<open>df[c]\<close> raises \<^verbatim>\<open>KeyError\<close> for any other \<open>c\<close>.
\<close>

record dataframe =
  columns :: "channel list"
  rows :: "(channel \<Rightarrow> real) list"

text \<open>The class \<^verbatim>\<open>Experiment\<close>: its \<^verbatim>\<open>data\<close> frame and its \<^verbatim>\<open>metadata\<close> dictionary.\<close>

record Experiment =
  data :: dataframe
  metadata :: "channel \<rightharpoonup> channel_meta"

text \<open>\<^verbatim>\<open>spillover = Dict(Tuple(Str, Str), Float)\<close>, \<^verbatim>\<open>controls = Dict(Str, File)\<close>.\<close>

type_synonym spillover = "((channel \<times> channel) \<times> real) list"
type_synonym controls = "(channel \<times> string) list"

text \<open>
  What the module takes from outside the two methods: numpy's \<^verbatim>\<open>linalg.pinv\<close> (of an
  \<open>n \<times> n\<close> matrix, an \<open>n \<times> n\<close> matrix), the order in which \<^verbatim>\<open>list(set(xs))\<close>
  enumerates, \<^verbatim>\<open>os.path.isfile\<close>, \<^verbatim>\<open>import_op.parse_tube\<close>, and the coefficients
  (slope, intercept) that \<^verbatim>\<open>np.polyfit(x, y, deg = 1)\<close> returns for a non-empty \<open>x\<close>.
\<close>

record env =
  pinv :: "real list list \<Rightarrow> real list list"
  set_to_list :: "channel list \<Rightarrow> channel list"
  isfile :: "string \<Rightarrow> bool"
  parse_tube :: "string \<Rightarrow> Experiment \<Rightarrow> error + dataframe"
  lstsq_line :: "real list \<Rightarrow> real list \<Rightarrow> real \<times> real"

subsection \<open>Dictionary and list-comprehension helpers\<close>

text \<open>\<^verbatim>\<open>self.spillover[k]\<close>: a missing key raises \<^verbatim>\<open>KeyError\<close>.\<close>

definition lookup :: "spillover \<Rightarrow> channel \<times> channel \<Rightarrow> error + real" where
  "lookup sp k =
     (case map_of sp k of
        None \<Rightarrow> Inl (KeyError [fst k, snd k])
      | Some v \<Rightarrow> Inr v)"

text \<open>A comprehension evaluates its elements left to right and stops at the first raise.\<close>

fun sequence :: "(error + 'a) list \<Rightarrow> error + 'a list" where
  "sequence [] = Inr []"
| "sequence (x # xs) =
     (case x of
        Inl e \<Rightarrow> Inl e
      | Inr v \<Rightarrow> (case sequence xs of Inl e \<Rightarrow> Inl e | Inr vs \<Rightarrow> Inr (v # vs)))"

subsection \<open>apply\<close>

text \<open>
  The body of the validation loop \<^verbatim>\<open>for (from_channel, to_channel) in self.spillover\<close>.
\<close>

definition check_key :: "dataframe \<Rightarrow> spillover \<Rightarrow> channel \<times> channel \<Rightarrow> error option" where
  "check_key df sp k =
     (case k of (from_channel, to_channel) \<Rightarrow>
        if from_channel \<notin> set (columns df)
        then Some (CytoflowOpError (''Can't find channel '' @ from_channel @ '' in experiment''))
        else if to_channel \<notin> set (columns df)
        then Some (CytoflowOpError (''Can't find channel '' @ to_channel @ '' in experiment''))
        else if (to_channel, from_channel) \<notin> set (map fst sp)
        then Some (CytoflowOpError
                     ''Must have both (from, to) and (to, from) keys in self.spillover'')
        else None)"

fun check_keys :: "dataframe \<Rightarrow> spillover \<Rightarrow> (channel \<times> channel) list \<Rightarrow> error option" where
  "check_keys df sp [] = None"
| "check_keys df sp (k # ks) =
     (case check_key df sp k of
        Some e \<Rightarrow> Some e
      | None \<Rightarrow> check_keys df sp ks)"

text \<open>
  \<^verbatim>\<open>a = [[self.spillover[(y, x)] if x != y else 1.0 for x in channels] for y in channels]\<close>:
  the outer comprehension (over \<open>y\<close>) gives the rows, the inner one (over \<open>x\<close>) the
  entries of a row.
\<close>

definition mixing_row :: "spillover \<Rightarrow> channel list \<Rightarrow> channel \<Rightarrow> error + real list" where
  "mixing_row sp channels y =
     sequence (map (\<lambda>x. if x \<noteq> y then lookup sp (y, x) else Inr 1) channels)"

definition mixing_matrix :: "spillover \<Rightarrow> channel list \<Rightarrow> error + real list list" where
  "mixing_matrix sp channels = sequence (map (mixing_row sp channels) channels)"

text \<open>
  \<^verbatim>\<open>np.dot\<close> of one row of events with a matrix: entry \<open>j\<close> is the inner product of the
  row with column \<open>j\<close> of the matrix.
\<close>

definition vec_mat :: "real list \<Rightarrow> real list list \<Rightarrow> real list" where
  "vec_mat v m = map (\<lambda>col. sum_list (map2 (*) v col)) (transpose m)"

definition dot :: "dataframe \<Rightarrow> channel list \<Rightarrow> real list list \<Rightarrow> real list list" where
  "dot df channels m = map (\<lambda>r. vec_mat (map r channels) m) (rows df)"

text \<open>
  \<^verbatim>\<open>df[channels] = values\<close>: column \<open>channels[j]\<close> receives column \<open>j\<close> of the values;
  here for one row.
\<close>

definition assign_row :: "channel list \<Rightarrow> real list \<Rightarrow> (channel \<Rightarrow> real) \<Rightarrow> channel \<Rightarrow> real" where
  "assign_row channels vs r =
     (\<lambda>c. case map_of (zip channels vs) c of None \<Rightarrow> r c | Some v \<Rightarrow> v)"

definition assign_columns :: "channel list \<Rightarrow> real list list \<Rightarrow> dataframe \<Rightarrow> dataframe" where
  "assign_columns channels values df =
     df\<lparr>rows := map2 (\<lambda>r vs. assign_row channels vs r) (rows df) values\<rparr>"

text \<open>
  The loop \<^verbatim>\<open>for channel in channels\<close> that writes the \<^verbatim>\<open>'linear_bleedthrough'\<close>
  metadata. Python evaluates the dictionary comprehension on the right first, then the
  subscript \<^verbatim>\<open>new_experiment.metadata[channel]\<close>.
\<close>

definition bleedthrough_dict :: "spillover \<Rightarrow> channel list \<Rightarrow> channel \<Rightarrow> error + (channel \<times> real) list" where
  "bleedthrough_dict sp channels channel =
     sequence (map (\<lambda>x. case lookup sp (x, channel) of Inl e \<Rightarrow> Inl e | Inr v \<Rightarrow> Inr (x, v))
                   (filter (\<lambda>x. x \<noteq> channel) channels))"

fun set_metadata ::
  "spillover \<Rightarrow> channel list \<Rightarrow> channel list \<Rightarrow> (channel \<rightharpoonup> channel_meta)
     \<Rightarrow> error + (channel \<rightharpoonup> channel_meta)" where
  "set_metadata sp channels [] md = Inr md"
| "set_metadata sp channels (channel # rest) md =
     (case bleedthrough_dict sp channels channel of
        Inl e \<Rightarrow> Inl e
      | Inr kvs \<Rightarrow>
          (case md channel of
             None \<Rightarrow> Inl (KeyError [channel])
           | Some m \<Rightarrow>
               set_metadata sp channels rest
                 (md(channel \<mapsto> m\<lparr>linear_bleedthrough := Some (map_of kvs)\<rparr>))))"

text \<open>
  Modelled from the spec: \<^verbatim>\<open>Experiment.clone\<close>, which is not among the sources. The
  spec has correction copy-on-write: the clone owns its data and metadata and shares
  nothing with the original, so as a value it is the original.
\<close>

definition clone :: "Experiment \<Rightarrow> Experiment" where
  "clone ex = ex"

text \<open>
  \<^verbatim>\<open>channels = list(set([x for (x, _) in self.spillover.keys()]))\<close>
\<close>

definition channels_of :: "env \<Rightarrow> spillover \<Rightarrow> channel list" where
  "channels_of env sp = set_to_list env (map (\<lambda>((x, _), _). x) sp)"

text \<open>
  \<^verbatim>\<open>apply(self, experiment)\<close>. The argument is \<open>None\<close> when Python's \<^verbatim>\<open>not experiment\<close>
  holds. The method is named \<open>apply_op\<close> here.
\<close>

definition apply_op :: "env \<Rightarrow> spillover \<Rightarrow> Experiment option \<Rightarrow> error + Experiment" where
  "apply_op env sp experiment =
     (case experiment of
        None \<Rightarrow> Inl (CytoflowOpError ''No experiment specified'')
      | Some ex \<Rightarrow>
          if sp = []
          then Inl (CytoflowOpError
                      ''Spillover matrix isn't set. Did you forget to run estimate()?'')
          else
            (case check_keys (data ex) sp (map fst sp) of
               Some e \<Rightarrow> Inl e
             | None \<Rightarrow>
                 let new_experiment = clone ex;
                     channels = channels_of env sp
                 in (case mixing_matrix sp channels of
                       Inl e \<Rightarrow> Inl e
                     | Inr a \<Rightarrow>
                         let a_inv = pinv env a;
                             new_data = assign_columns channels
                                          (dot (data ex) channels a_inv) (data new_experiment)
                         in (case set_metadata sp channels channels (metadata new_experiment) of
                               Inl e \<Rightarrow> Inl e
                             | Inr md \<Rightarrow>
                                 Inr (new_experiment\<lparr>data := new_data, metadata := md\<rparr>)))))"

text \<open>
  The same method over a store of experiment objects, to speak of the object passed in
  after the call. A reference is an index into the store. \<^verbatim>\<open>clone\<close> allocates the one
  new object, and every assignment of the method is to that object; after a raise it is
  unreachable and the store is given back as it was. Python has no reference to a missing
  object: the model answers one with an error.
\<close>

type_synonym store = "Experiment list"

definition apply_store :: "env \<Rightarrow> spillover \<Rightarrow> store \<Rightarrow> nat option \<Rightarrow> store \<times> (error + nat)" where
  "apply_store env sp h experiment =
     (case experiment of
        None \<Rightarrow> (h, Inl (CytoflowOpError ''No experiment specified''))
      | Some ref \<Rightarrow>
          if length h \<le> ref then (h, Inl (KeyError []))
          else
            (case apply_op env sp (Some (h ! ref)) of
               Inl e \<Rightarrow> (h, Inl e)
             | Inr new_experiment \<Rightarrow> (h @ [new_experiment], Inr (length h))))"

subsection \<open>estimate\<close>

text \<open>
  \<^verbatim>\<open>np.min\<close> and \<^verbatim>\<open>np.max\<close> of a column: of an empty column pandas gives \<^verbatim>\<open>nan\<close>,
  here \<open>None\<close>, and every comparison with \<^verbatim>\<open>nan\<close> is false.
\<close>

definition np_min :: "real list \<Rightarrow> real option" where
  "np_min xs = (case xs of [] \<Rightarrow> None | x # ys \<Rightarrow> Some (fold min ys x))"

definition np_max :: "real list \<Rightarrow> real option" where
  "np_max xs = (case xs of [] \<Rightarrow> None | x # ys \<Rightarrow> Some (fold max ys x))"

definition gt_bound :: "real \<Rightarrow> real option \<Rightarrow> bool" where
  "gt_bound x b = (case b of None \<Rightarrow> False | Some m \<Rightarrow> x > m)"

definition lt_bound :: "real \<Rightarrow> real option \<Rightarrow> bool" where
  "lt_bound x b = (case b of None \<Rightarrow> False | Some m \<Rightarrow> x < m)"

definition column :: "dataframe \<Rightarrow> channel \<Rightarrow> real list" where
  "column df c = map (\<lambda>r. r c) (rows df)"

text \<open>
  The four lines
  \<^verbatim>\<open>c_min = np.min(data[c]) * 1.05; c_max = np.max(data[c]) * 0.95;
  data = data[data[c] > c_min]; data = data[data[c] < c_max]\<close>.
\<close>

definition trim :: "channel \<Rightarrow> dataframe \<Rightarrow> dataframe" where
  "trim c df =
     (let c_min = map_option (\<lambda>m. m * 1.05) (np_min (column df c));
          c_max = map_option (\<lambda>m. m * 0.95) (np_max (column df c));
          df1 = df\<lparr>rows := filter (\<lambda>r. gt_bound (r c) c_min) (rows df)\<rparr>
      in df1\<lparr>rows := filter (\<lambda>r. lt_bound (r c) c_max) (rows df1)\<rparr>)"

text \<open>\<^verbatim>\<open>np.polyfit(x, y, deg = 1)\<close> raises \<^verbatim>\<open>TypeError\<close> on an empty \<open>x\<close>.\<close>

definition polyfit :: "env \<Rightarrow> real list \<Rightarrow> real list \<Rightarrow> error + real \<times> real" where
  "polyfit env xs ys =
     (if xs = [] then Inl (TypeError ''expected non-empty vector for x'')
      else Inr (lstsq_line env xs ys))"

text \<open>
  The body of the loop over \<open>to_channel\<close>, after the test \<^verbatim>\<open>from_channel == to_channel\<close>:
  it returns the trimmed frame, which the source stores back into \<^verbatim>\<open>data\<close>, and the
  slope \<^verbatim>\<open>lr[0]\<close>. (\<^verbatim>\<open>reset_index\<close> renumbers the rows and changes no value.)
\<close>

definition fit_pair ::
  "env \<Rightarrow> channel \<Rightarrow> channel \<Rightarrow> dataframe \<Rightarrow> error + dataframe \<times> real" where
  "fit_pair env from_channel to_channel df =
     (if from_channel \<notin> set (columns df) then Inl (KeyError [from_channel])
      else
        let df1 = trim from_channel df
        in if to_channel \<notin> set (columns df1) then Inl (KeyError [to_channel])
           else
             let df2 = trim to_channel df1
             in (case polyfit env (column df2 from_channel) (column df2 to_channel) of
                   Inl e \<Rightarrow> Inl e
                 | Inr lr \<Rightarrow> Inr (df2, fst lr)))"

text \<open>
  \<^verbatim>\<open>for to_channel in channels\<close>: the state is the local \<^verbatim>\<open>data\<close> and
  \<^verbatim>\<open>self.spillover\<close>. A raise leaves \<^verbatim>\<open>self.spillover\<close> as written so far.
\<close>

fun to_loop ::
  "env \<Rightarrow> channel \<Rightarrow> channel list \<Rightarrow> dataframe \<Rightarrow> spillover \<Rightarrow> spillover \<times> error option" where
  "to_loop env from_channel [] df sp = (sp, None)"
| "to_loop env from_channel (to_channel # rest) df sp =
     (if from_channel = to_channel then to_loop env from_channel rest df sp
      else
        (case fit_pair env from_channel to_channel df of
           Inl e \<Rightarrow> (sp, Some e)
         | Inr (df', slope) \<Rightarrow>
             to_loop env from_channel rest df'
               (AList.update (from_channel, to_channel) slope sp)))"

text \<open>
  \<^verbatim>\<open>for af_channel in channels\<close>: subtract the autofluorescence median where the
  experiment records one.
\<close>

fun af_loop :: "Experiment \<Rightarrow> channel list \<Rightarrow> dataframe \<Rightarrow> error + dataframe" where
  "af_loop ex [] df = Inr df"
| "af_loop ex (af_channel # rest) df =
     (case metadata ex af_channel of
        None \<Rightarrow> Inl (KeyError [af_channel])
      | Some m \<Rightarrow>
          (case af_median m of
             None \<Rightarrow> af_loop ex rest df
           | Some v \<Rightarrow>
               if af_channel \<notin> set (columns df) then Inl (KeyError [af_channel])
               else af_loop ex rest
                      (df\<lparr>rows := map (\<lambda>r. r(af_channel := r af_channel - v)) (rows df)\<rparr>)))"

text \<open>
  \<^verbatim>\<open>parse_tube(self.controls[channel], experiment).sort(channel)\<close> followed by the
  baseline subtraction: the control that the fits of \<open>channel\<close> start from.
\<close>

definition load_control ::
  "env \<Rightarrow> controls \<Rightarrow> Experiment \<Rightarrow> channel list \<Rightarrow> channel \<Rightarrow> error + dataframe" where
  "load_control env ctl ex channels channel =
     (case map_of ctl channel of
        None \<Rightarrow> Inl (KeyError [channel])
      | Some file \<Rightarrow>
          (case parse_tube env file ex of
             Inl e \<Rightarrow> Inl e
           | Inr df \<Rightarrow>
               if channel \<notin> set (columns df) then Inl (KeyError [channel])
               else af_loop ex channels
                      (df\<lparr>rows := sort_key (\<lambda>r. r channel) (rows df)\<rparr>)))"

text \<open>The second \<^verbatim>\<open>for channel in channels\<close> loop.\<close>

fun from_loop ::
  "env \<Rightarrow> controls \<Rightarrow> Experiment \<Rightarrow> channel list \<Rightarrow> channel list \<Rightarrow> spillover
     \<Rightarrow> spillover \<times> error option" where
  "from_loop env ctl ex channels [] sp = (sp, None)"
| "from_loop env ctl ex channels (channel # rest) sp =
     (case load_control env ctl ex channels channel of
        Inl e \<Rightarrow> (sp, Some e)
      | Inr df \<Rightarrow>
          (case to_loop env channel channels df sp of
             (sp', Some e) \<Rightarrow> (sp', Some e)
           | (sp', None) \<Rightarrow> from_loop env ctl ex channels rest sp'))"

text \<open>The first loop: \<^verbatim>\<open>make sure the control files exist\<close>.\<close>

fun check_files :: "env \<Rightarrow> controls \<Rightarrow> channel list \<Rightarrow> error option" where
  "check_files env ctl [] = None"
| "check_files env ctl (channel # rest) =
     (case map_of ctl channel of
        None \<Rightarrow> Some (KeyError [channel])
      | Some file \<Rightarrow>
          if \<not> isfile env file
          then Some (CytoflowOpError
                       (''Can't find file '' @ file @ '' for channel '' @ channel @ ''.''))
          else check_files env ctl rest)"

text \<open>
  \<^verbatim>\<open>estimate(self, experiment, subset = None)\<close>: the state is \<^verbatim>\<open>self.spillover\<close>; the
  result is the table after the call and the exception raised, if any.
\<close>

definition estimate ::
  "env \<Rightarrow> controls \<Rightarrow> Experiment option \<Rightarrow> spillover \<Rightarrow> spillover \<times> error option" where
  "estimate env ctl experiment sp =
     (case experiment of
        None \<Rightarrow> (sp, Some (CytoflowOpError ''No experiment specified''))
      | Some ex \<Rightarrow>
          let channels = map fst ctl
          in if length channels < 2
             then (sp, Some (CytoflowOpError
                               ''Need at least two channels to correct bleedthrough.''))
             else
               (case check_files env ctl channels of
                  Some e \<Rightarrow> (sp, Some e)
                | None \<Rightarrow> from_loop env ctl ex channels channels sp))"

subsection \<open>Vocabulary of the properties\<close>

text \<open>The channels that appear first in a key of the table: what \<open>channels_of\<close> enumerates.\<close>

definition channel_set :: "spillover \<Rightarrow> channel set" where
  "channel_set sp = (\<lambda>((x, _), _). x) ` set sp"

text \<open>
  \<^verbatim>\<open>list(set(xs))\<close> lists every element of \<open>xs\<close> once, in an order of its own.
\<close>

definition enumerates :: "env \<Rightarrow> spillover \<Rightarrow> bool" where
  "enumerates env sp \<longleftrightarrow>
     distinct (channels_of env sp) \<and> set (channels_of env sp) = channel_set sp"

text \<open>
  The table passes the checks of \<open>apply_op\<close>: it is not empty, both channels of every
  key are columns of the experiment, and every key has its mirrored key.
\<close>

definition valid_table :: "spillover \<Rightarrow> Experiment \<Rightarrow> bool" where
  "valid_table sp ex \<longleftrightarrow>
     sp \<noteq> [] \<and>
     (\<forall>k \<in> fst ` set sp.
        fst k \<in> set (columns (data ex)) \<and> snd k \<in> set (columns (data ex)) \<and>
        (snd k, fst k) \<in> fst ` set sp)"

text \<open>The table has a key for every ordered pair of distinct channels of its channel set.\<close>

definition complete_table :: "spillover \<Rightarrow> bool" where
  "complete_table sp \<longleftrightarrow>
     (\<forall>x \<in> channel_set sp. \<forall>y \<in> channel_set sp. x \<noteq> y \<longrightarrow> (x, y) \<in> fst ` set sp)"

text \<open>
  The metadata of channel \<open>c\<close> with the coefficients that flow into \<open>c\<close> from the other
  channels of \<open>channels\<close> under \<^verbatim>\<open>'linear_bleedthrough'\<close>.
\<close>

definition with_bleedthrough ::
  "spillover \<Rightarrow> channel list \<Rightarrow> channel \<Rightarrow> channel_meta \<Rightarrow> channel_meta" where
  "with_bleedthrough sp channels c m =
     m\<lparr>linear_bleedthrough :=
         Some (\<lambda>x. if x \<in> set channels \<and> x \<noteq> c then map_of sp (x, c) else None)\<rparr>"

definition identity_matrix :: "nat \<Rightarrow> real list list" where
  "identity_matrix n = map (\<lambda>i. map (\<lambda>j. if i = j then 1 else 0) [0..<n]) [0..<n]"

text \<open>The table without its diagonal keys \<open>(c, c)\<close>.\<close>

definition remove_diagonal :: "spillover \<Rightarrow> spillover" where
  "remove_diagonal sp = filter (\<lambda>((x, y), _). x \<noteq> y) sp"

subsection \<open>Concrete inputs\<close>

text \<open>A row given by its values at the named channels.\<close>

definition row_of :: "(channel \<times> real) list \<Rightarrow> channel \<Rightarrow> real" where
  "row_of kvs c = (case map_of kvs c of None \<Rightarrow> 0 | Some v \<Rightarrow> v)"

text \<open>
  The Moore-Penrose pseudoinverse of a \<open>2 \<times> 2\<close> real matrix: the inverse when the
  determinant is not zero, and otherwise the transpose divided by the sum of the squares
  of the entries (the matrix then has rank one or is zero).
\<close>

definition pinv_2x2 :: "real list list \<Rightarrow> real list list" where
  "pinv_2x2 m =
     (case m of
        [[a, b], [c, d]] \<Rightarrow>
          (if a * d - b * c \<noteq> 0
           then [[d / (a * d - b * c), - b / (a * d - b * c)],
                 [- c / (a * d - b * c), a / (a * d - b * c)]]
           else [[a / (a * a + b * b + c * c + d * d), c / (a * a + b * b + c * c + d * d)],
                 [b / (a * a + b * b + c * c + d * d), d / (a * a + b * b + c * c + d * d)]])
      | _ \<Rightarrow> m)"

text \<open>The least-squares line through the points \<open>(xs ! i, ys ! i)\<close>: slope and intercept.\<close>

definition lstsq :: "real list \<Rightarrow> real list \<Rightarrow> real \<times> real" where
  "lstsq xs ys =
     (let n = real (length xs); sx = sum_list xs; sy = sum_list ys;
          sxy = sum_list (map2 (*) xs ys); sxx = sum_list (map2 (*) xs xs);
          slope = (n * sxy - sx * sy) / (n * sxx - sx * sx)
      in (slope, (sy - slope * sx) / n))"

definition no_meta :: channel_meta where
  "no_meta = \<lparr>af_median = None, linear_bleedthrough = None\<rparr>"

text \<open>An experiment of one event on three channels.\<close>

definition demo_experiment :: Experiment where
  "demo_experiment =
     \<lparr>data = \<lparr>columns = [''A'', ''B'', ''C''],
              rows = [row_of [(''A'', 1), (''B'', 2), (''C'', 3)]]\<rparr>,
      metadata = [''A'' \<mapsto> no_meta, ''B'' \<mapsto> no_meta, ''C'' \<mapsto> no_meta]\<rparr>"

definition demo_env :: env where
  "demo_env = \<lparr>pinv = pinv_2x2, set_to_list = remdups, isfile = (\<lambda>_. True),
               parse_tube = (\<lambda>file ex. Inr (data ex)), lstsq_line = lstsq\<rparr>"

definition demo_table :: spillover where
  "demo_table = [((''A'', ''B''), 1 / 2), ((''B'', ''A''), 1 / 4)]"

text \<open>An \<open>n \<times> n\<close> matrix as a list of rows.\<close>

definition square :: "nat \<Rightarrow> real list list \<Rightarrow> bool" where
  "square n m \<longleftrightarrow> length m = n \<and> (\<forall>row \<in> set m. length row = n)"

text \<open>
  The mixing matrix as the spec words it, \<open>M[row][col] = spillover[(col, row)]\<close> off the
  diagonal, to compare with \<open>mixing_matrix\<close>.
\<close>

definition spec_mixing_matrix :: "spillover \<Rightarrow> channel list \<Rightarrow> real list list" where
  "spec_mixing_matrix sp channels =
     map (\<lambda>row. map (\<lambda>col. if row \<noteq> col then the (map_of sp (col, row)) else 1) channels)
         channels"

text \<open>
  The coefficient as the spec words it: the slope of the least-squares line of \<open>t\<close>
  against \<open>c\<close> over the rows of the control that survive the trim on \<open>c\<close> and then
  the trim on \<open>t\<close>, to compare with what \<open>estimate\<close> stores.
\<close>

definition spec_coefficient :: "env \<Rightarrow> dataframe \<Rightarrow> channel \<Rightarrow> channel \<Rightarrow> real" where
  "spec_coefficient env control c t =
     (let df = trim t (trim c control)
      in fst (lstsq_line env (column df c) (column df t)))"

text \<open>Spillover tables: with unequal coefficients, all zero, naming a channel \<open>D\<close> that
  the experiment does not have, with a diagonal key, and without the keys between \<open>A\<close>
  and \<open>C\<close>.\<close>

definition demo_asym_table :: spillover where
  "demo_asym_table = [((''A'', ''B''), 2), ((''B'', ''A''), 3)]"

definition demo_zero_table :: spillover where
  "demo_zero_table = [((''A'', ''B''), 0), ((''B'', ''A''), 0)]"

definition demo_missing_table :: spillover where
  "demo_missing_table = [((''A'', ''D''), 0), ((''D'', ''A''), 0)]"

definition demo_diag_table :: spillover where
  "demo_diag_table = [((''A'', ''B''), 1 / 2), ((''B'', ''A''), 1 / 4), ((''D'', ''D''), 9)]"

definition demo_diag_first_table :: spillover where
  "demo_diag_first_table = [((''A'', ''A''), 9), ((''A'', ''B''), 1 / 2), ((''B'', ''A''), 1 / 4)]"

definition demo_incomplete_table :: spillover where
  "demo_incomplete_table =
     [((''A'', ''B''), 0), ((''B'', ''A''), 0), ((''B'', ''C''), 0), ((''C'', ''B''), 0)]"

text \<open>A single-colour control of eleven events, and the environment that loads it.\<close>

definition demo_control :: dataframe where
  "demo_control =
     \<lparr>columns = [''A'', ''B'', ''C''],
      rows = map (\<lambda>(a, b, c). row_of [(''A'', a), (''B'', b), (''C'', c)])
               [(10, 1, 7), (20, 2, 3), (30, 3, 9), (40, 4, 2), (50, 5, 8), (60, 6, 1),
                (70, 7, 6), (80, 8, 4), (90, 9, 5), (100, 10, 10), (110, 11, 2)]\<rparr>"

definition tube_env :: env where
  "tube_env = demo_env\<lparr>parse_tube := (\<lambda>file ex. Inr demo_control)\<rparr>"

definition demo_controls :: controls where
  "demo_controls = [(''A'', ''a.fcs''), (''B'', ''b.fcs'')]"

definition demo_controls3 :: controls where
  "demo_controls3 = [(''A'', ''a.fcs''), (''B'', ''b.fcs''), (''C'', ''c.fcs'')]"

text \<open>
  The local \<^verbatim>\<open>data\<close> of \<open>estimate\<close> after the loop over \<open>to_channel\<close> has fitted
  the channels of a list: every fit stores its trimmed frame back.
\<close>

fun data_after :: "channel \<Rightarrow> channel list \<Rightarrow> dataframe \<Rightarrow> dataframe" where
  "data_after from_channel [] df = df"
| "data_after from_channel (to_channel # rest) df =
     (if from_channel = to_channel then data_after from_channel rest df
      else data_after from_channel rest (trim to_channel (trim from_channel df)))"

section \<open>Properties\<close>

subsection \<open>Comprehensions, lookups and the checks of apply\<close>

lemma sequence_map_Inr_self: "sequence (map Inr vs) = Inr vs"
  by (induction vs) simp_all

lemma sequence_Inr_D: "sequence xs = Inr vs \<Longrightarrow> xs = map Inr vs"
  by (induction xs arbitrary: vs) (auto split: sum.splits)

lemma sequence_Inr_iff: "sequence xs = Inr vs \<longleftrightarrow> xs = map Inr vs"
  using sequence_Inr_D sequence_map_Inr_self by blast

lemma sequence_map_total:
  assumes "\<And>x. x \<in> set xs \<Longrightarrow> f x = Inr (g x)"
  shows "sequence (map f xs) = Inr (map g xs)"
  using assms by (simp add: sequence_Inr_iff)

lemma check_keys_None_iff:
  "check_keys df sp ks = None \<longleftrightarrow> (\<forall>k \<in> set ks. check_key df sp k = None)"
  by (induction ks) (auto split: option.splits)

lemma check_key_None_iff:
  "check_key df sp (a, b) = None \<longleftrightarrow>
     a \<in> set (columns df) \<and> b \<in> set (columns df) \<and> (b, a) \<in> fst ` set sp"
  by (simp add: check_key_def)

lemma bleedthrough_dict_Inr:
  assumes "bleedthrough_dict sp channels c = Inr kvs"
  shows "map_of kvs = (\<lambda>x. if x \<in> set channels \<and> x \<noteq> c then map_of sp (x, c) else None)"
    and "\<And>x. x \<in> set channels \<Longrightarrow> x \<noteq> c \<Longrightarrow> map_of sp (x, c) \<noteq> None"
proof -
  let ?xs = "filter (\<lambda>x. x \<noteq> c) channels"
  let ?f = "\<lambda>x. case lookup sp (x, c) of Inl e \<Rightarrow> Inl e | Inr v \<Rightarrow> Inr (x, v)"
  from assms have eq: "map ?f ?xs = map Inr kvs"
    by (simp add: bleedthrough_dict_def sequence_Inr_iff)
  have each: "\<exists>v. map_of sp (x, c) = Some v \<and> ?f x = Inr (x, v) \<and> (x, v) \<in> set kvs" if "x \<in> set ?xs" for x
  proof -
    from that have "?f x \<in> set (map ?f ?xs)" by simp
    with eq have "?f x \<in> Inr ` set kvs" by simp
    then obtain kv where kv: "?f x = Inr kv" "kv \<in> set kvs" by auto
    then show ?thesis by (auto simp: lookup_def split: option.splits sum.splits)
  qed
  then show "\<And>x. x \<in> set channels \<Longrightarrow> x \<noteq> c \<Longrightarrow> map_of sp (x, c) \<noteq> None"
    by fastforce
  have kvs: "kvs = map (\<lambda>x. (x, the (map_of sp (x, c)))) ?xs"
  proof -
    have "map Inr kvs = map ?f ?xs"
      by (rule eq[symmetric])
    also have "\<dots> = map (\<lambda>x. Inr (x, the (map_of sp (x, c)))) ?xs"
    proof (intro map_cong refl)
      fix x assume "x \<in> set ?xs"
      from each[OF this] obtain v where "map_of sp (x, c) = Some v" "?f x = Inr (x, v)" by blast
      then show "?f x = Inr (x, the (map_of sp (x, c)))" by simp
    qed
    also have "\<dots> = map Inr (map (\<lambda>x. (x, the (map_of sp (x, c)))) ?xs)"
      by simp
    finally have "map (Inr :: channel \<times> real \<Rightarrow> error + channel \<times> real) kvs
                  = map Inr (map (\<lambda>x. (x, the (map_of sp (x, c)))) ?xs)" .
    then show ?thesis by (rule map_injective) simp
  qed
  show "map_of kvs = (\<lambda>x. if x \<in> set channels \<and> x \<noteq> c then map_of sp (x, c) else None)"
  proof
    fix x
    show "map_of kvs x = (if x \<in> set channels \<and> x \<noteq> c then map_of sp (x, c) else None)"
    proof (cases "x \<in> set ?xs")
      case True
      then obtain v where "map_of sp (x, c) = Some v" using each by blast
      with True show ?thesis
        unfolding kvs by (simp add: map_of_map_restrict)
    next
      case False
      then show ?thesis unfolding kvs by (auto simp: map_of_map_restrict)
    qed
  qed
qed

lemma set_metadata_Inr:
  assumes "set_metadata sp channels cs md = Inr md'"
  shows "md' c = (if c \<in> set cs then map_option (with_bleedthrough sp channels c) (md c) else md c)
         \<and> (c \<in> set cs \<longrightarrow> md c \<noteq> None)"
  using assms
proof (induction cs arbitrary: md)
  case Nil
  then show ?case by simp
next
  case (Cons a cs)
  from Cons.prems obtain kvs m where
    kvs: "bleedthrough_dict sp channels a = Inr kvs" and m: "md a = Some m"
    and rest: "set_metadata sp channels cs (md(a \<mapsto> m\<lparr>linear_bleedthrough := Some (map_of kvs)\<rparr>)) = Inr md'"
    by (auto split: sum.splits option.splits)
  have upd: "m\<lparr>linear_bleedthrough := Some (map_of kvs)\<rparr> = with_bleedthrough sp channels a m"
    using bleedthrough_dict_Inr(1)[OF kvs] by (simp add: with_bleedthrough_def)
  from Cons.IH[OF rest] m upd show ?case
    by (auto simp: with_bleedthrough_def)
qed

lemma set_metadata_Inr_dict:
  assumes "set_metadata sp channels cs md = Inr md'" and "c \<in> set cs"
  shows "\<exists>kvs. bleedthrough_dict sp channels c = Inr kvs"
  using assms
  by (induction cs arbitrary: md) (auto split: sum.splits option.splits)

lemma apply_op_InrD:
  assumes "apply_op env sp (Some ex) = Inr r"
  obtains a md where
    "sp \<noteq> []"
    "check_keys (data ex) sp (map fst sp) = None"
    "mixing_matrix sp (channels_of env sp) = Inr a"
    "set_metadata sp (channels_of env sp) (channels_of env sp) (metadata ex) = Inr md"
    "r = ex\<lparr>data := assign_columns (channels_of env sp)
                       (dot (data ex) (channels_of env sp) (pinv env a)) (data ex),
            metadata := md\<rparr>"
  using assms
  by (auto simp: apply_op_def clone_def Let_def split: if_splits option.splits sum.splits)

lemma apply_op_Inr_intro:
  assumes "sp \<noteq> []"
    "check_keys (data ex) sp (map fst sp) = None"
    "mixing_matrix sp (channels_of env sp) = Inr a"
    "set_metadata sp (channels_of env sp) (channels_of env sp) (metadata ex) = Inr md"
  shows "apply_op env sp (Some ex) =
         Inr (ex\<lparr>data := assign_columns (channels_of env sp)
                       (dot (data ex) (channels_of env sp) (pinv env a)) (data ex),
            metadata := md\<rparr>)"
  using assms by (simp add: apply_op_def clone_def Let_def)

lemma sequence_map_Inr_iff:
  assumes "\<And>x row. f x = Inr row \<longleftrightarrow> P x \<and> row = g x"
  shows "sequence (map f xs) = Inr M \<longleftrightarrow> (\<forall>x \<in> set xs. P x) \<and> M = map g xs"
proof (induction xs arbitrary: M)
  case Nil
  show ?case by auto
next
  case (Cons x xs)
  show ?case
  proof (cases "f x")
    case (Inl e)
    with assms[of x] show ?thesis by auto
  next
    case (Inr v)
    with assms[of x v] have x: "P x" "v = g x" by auto
    have "sequence (map f (x # xs)) = Inr M \<longleftrightarrow>
            (\<exists>M'. M = v # M' \<and> sequence (map f xs) = Inr M')"
      using Inr by (auto split: sum.splits)
    also have "\<dots> \<longleftrightarrow> (\<exists>M'. M = v # M' \<and> (\<forall>x \<in> set xs. P x) \<and> M' = map g xs)"
      by (simp add: Cons.IH)
    also have "\<dots> \<longleftrightarrow> (\<forall>x \<in> set (x # xs). P x) \<and> M = map g (x # xs)"
      using x by auto
    finally show ?thesis .
  qed
qed

lemma mixing_row_Inr_iff:
  "mixing_row sp chs y = Inr row \<longleftrightarrow>
     (\<forall>x \<in> set chs. x \<noteq> y \<longrightarrow> map_of sp (y, x) \<noteq> None) \<and>
     row = map (\<lambda>x. if x \<noteq> y then the (map_of sp (y, x)) else 1) chs"
  unfolding mixing_row_def
  by (rule sequence_map_Inr_iff) (auto simp: lookup_def split: option.splits)

lemma mixing_matrix_Inr_iff:
  "mixing_matrix sp chs = Inr M \<longleftrightarrow>
     (\<forall>y \<in> set chs. \<forall>x \<in> set chs. x \<noteq> y \<longrightarrow> map_of sp (y, x) \<noteq> None) \<and>
     M = map (\<lambda>y. map (\<lambda>x. if x \<noteq> y then the (map_of sp (y, x)) else 1) chs) chs"
  unfolding mixing_matrix_def
  by (rule sequence_map_Inr_iff) (rule mixing_row_Inr_iff)

lemma bleedthrough_dict_total:
  assumes "\<And>x. x \<in> set chs \<Longrightarrow> x \<noteq> c \<Longrightarrow> map_of sp (x, c) \<noteq> None"
  shows "\<exists>kvs. bleedthrough_dict sp chs c = Inr kvs"
proof -
  have "sequence (map (\<lambda>x. case lookup sp (x, c) of Inl e \<Rightarrow> Inl e | Inr v \<Rightarrow> Inr (x, v))
                      (filter (\<lambda>x. x \<noteq> c) chs))
        = Inr (map (\<lambda>x. (x, the (map_of sp (x, c)))) (filter (\<lambda>x. x \<noteq> c) chs))"
    by (rule sequence_map_total) (use assms in \<open>auto simp: lookup_def split: option.splits\<close>)
  then show ?thesis by (auto simp: bleedthrough_dict_def)
qed

lemma set_metadata_succeeds:
  assumes "\<And>c. c \<in> set cs \<Longrightarrow> \<exists>kvs. bleedthrough_dict sp chs c = Inr kvs"
    and "set cs \<subseteq> dom md"
  shows "\<exists>md'. set_metadata sp chs cs md = Inr md'"
  using assms
proof (induction cs arbitrary: md)
  case Nil
  show ?case by simp
next
  case (Cons c cs)
  from Cons.prems(1)[of c] obtain kvs where kvs: "bleedthrough_dict sp chs c = Inr kvs" by auto
  from Cons.prems(2) obtain m where m: "md c = Some m" by auto
  have "\<exists>md'. set_metadata sp chs cs (md(c \<mapsto> m\<lparr>linear_bleedthrough := Some (map_of kvs)\<rparr>)) = Inr md'"
    by (rule Cons.IH) (use Cons.prems in auto)
  with kvs m show ?case by simp
qed

lemma map_of_neq_None_iff: "map_of sp k \<noteq> None \<longleftrightarrow> k \<in> fst ` set sp"
  by (simp add: map_of_eq_None_iff)

lemma apply_op_succeeds:
  assumes valid: "valid_table sp ex"
    and complete: "complete_table sp"
    and meta: "channel_set sp \<subseteq> dom (metadata ex)"
    and chs: "set (channels_of env sp) = channel_set sp"
  shows "\<exists>r. apply_op env sp (Some ex) = Inr r"
proof -
  let ?chs = "channels_of env sp"
  from valid have ne: "sp \<noteq> []" by (simp add: valid_table_def)
  have ck: "check_keys (data ex) sp (map fst sp) = None"
    unfolding check_keys_None_iff
  proof
    fix k assume "k \<in> set (map fst sp)"
    then have "k \<in> fst ` set sp" by simp
    with valid have "fst k \<in> set (columns (data ex)) \<and> snd k \<in> set (columns (data ex)) \<and>
        (snd k, fst k) \<in> fst ` set sp"
      unfolding valid_table_def by blast
    then show "check_key (data ex) sp k = None"
      by (cases k) (simp add: check_key_None_iff)
  qed
  have pairs: "map_of sp (y, x) \<noteq> None" if "y \<in> set ?chs" "x \<in> set ?chs" "x \<noteq> y" for x y
    using that complete chs unfolding complete_table_def map_of_neq_None_iff by auto
  then obtain a where a: "mixing_matrix sp ?chs = Inr a"
    unfolding mixing_matrix_Inr_iff by blast
  have "\<exists>md. set_metadata sp ?chs ?chs (metadata ex) = Inr md"
  proof (rule set_metadata_succeeds)
    fix c assume "c \<in> set ?chs"
    then show "\<exists>kvs. bleedthrough_dict sp ?chs c = Inr kvs"
      by (intro bleedthrough_dict_total pairs) auto
  next
    from meta chs show "set ?chs \<subseteq> dom (metadata ex)" by simp
  qed
  then obtain md where "set_metadata sp ?chs ?chs (metadata ex) = Inr md" ..
  from apply_op_Inr_intro[OF ne ck a this] show ?thesis by blast
qed

lemma demo_channels: "channels_of demo_env demo_table = [''A'', ''B'']"
  by (simp add: channels_of_def demo_env_def demo_table_def)

lemma demo_channel_set: "channel_set demo_table = {''A'', ''B''}"
  by (simp add: channel_set_def demo_table_def)

lemma demo_enumerates: "enumerates demo_env demo_table"
  by (simp add: enumerates_def demo_channels demo_channel_set)

lemma demo_succeeds: "\<exists>r. apply_op demo_env demo_table (Some demo_experiment) = Inr r"
proof (rule apply_op_succeeds)
  show "valid_table demo_table demo_experiment"
    by (simp add: valid_table_def demo_table_def demo_experiment_def)
  show "complete_table demo_table"
    unfolding complete_table_def demo_channel_set by (simp add: demo_table_def)
  show "channel_set demo_table \<subseteq> dom (metadata demo_experiment)"
    unfolding demo_channel_set by (simp add: demo_experiment_def)
  show "set (channels_of demo_env demo_table) = channel_set demo_table"
    using demo_enumerates by (simp add: enumerates_def)
qed

subsection \<open>Rows, columns and matrices\<close>

lemma map2_same: "map2 f xs (map g xs) = map (\<lambda>x. f x (g x)) xs"
  by (induction xs) simp_all

lemma rows_assign_dot:
  "rows (assign_columns chs (dot df chs m) df)
     = map (\<lambda>row. assign_row chs (vec_mat (map row chs) m) row) (rows df)"
  by (simp add: assign_columns_def dot_def map2_same)

lemma assign_row_other: "c \<notin> set chs \<Longrightarrow> assign_row chs vs r c = r c"
proof -
  assume "c \<notin> set chs"
  then have "map_of (zip chs vs) c = None"
    by (auto simp: map_of_eq_None_iff dest: set_zip_leftD)
  then show ?thesis by (simp add: assign_row_def)
qed

lemma assign_row_selected:
  assumes "distinct chs" "length vs = length chs"
  shows "map (assign_row chs vs r) chs = vs"
proof (rule nth_equalityI)
  show "length (map (assign_row chs vs r) chs) = length vs" using assms by simp
next
  fix i assume "i < length (map (assign_row chs vs r) chs)"
  then have i: "i < length chs" by simp
  with assms have "map_of (zip chs vs) (chs ! i) = Some (vs ! i)"
    by (intro map_of_zip_nth) auto
  with i show "map (assign_row chs vs r) chs ! i = vs ! i"
    by (simp add: assign_row_def)
qed

lemma assign_row_same:
  "assign_row chs (map r chs) r = r"
  by (rule ext) (simp add: assign_row_def map_of_zip_map)

lemma transpose_square:
  assumes "square n m"
  shows "transpose m = map (\<lambda>i. map (\<lambda>j. m ! j ! i) [0..<n]) [0..<n]"
proof -
  from assms have len: "length m = n" and rect: "\<And>i. i < length m \<Longrightarrow> length (m ! i) = n"
    by (auto simp: square_def)
  have "transpose m = map (\<lambda>i. map (\<lambda>j. m ! j ! i) [0..<length m]) [0..<n]"
    by (rule transpose_rectangle) (use len rect in auto)
  with len show ?thesis by simp
qed

lemma length_vec_mat: "square n m \<Longrightarrow> length (vec_mat v m) = n"
  by (simp add: vec_mat_def transpose_square)

lemma square_identity: "square n (identity_matrix n)"
  by (auto simp: square_def identity_matrix_def)

lemma vec_mat_identity:
  assumes "length v = n"
  shows "vec_mat v (identity_matrix n) = v"
proof (rule nth_equalityI)
  show "length (vec_mat v (identity_matrix n)) = length v"
    using assms length_vec_mat[OF square_identity, of v n] by simp
next
  fix i assume "i < length (vec_mat v (identity_matrix n))"
  then have i: "i < n" using length_vec_mat[OF square_identity, of v n] by simp
  have col: "map (\<lambda>j. identity_matrix n ! j ! i) [0..<n] = map (\<lambda>j. if j = i then 1 else 0) [0..<n]"
    using i by (auto simp: identity_matrix_def)
  have "sum_list (map2 (*) v (map (\<lambda>j. if j = i then 1 else 0) [0..<n]))
        = (\<Sum>j = 0..<n. v ! j * (if j = i then 1 else 0))"
    using assms by (simp add: sum_list_sum_nth)
  also have "\<dots> = (\<Sum>j = 0..<n. if j = i then v ! j else 0)"
    by (intro sum.cong) auto
  also have "\<dots> = v ! i" using i by simp
  finally show "vec_mat v (identity_matrix n) ! i = v ! i"
    using i by (simp add: vec_mat_def transpose_square[OF square_identity] col)
qed

lemma mixing_matrix_zero:
  assumes zero: "\<And>x y. x \<in> set chs \<Longrightarrow> y \<in> set chs \<Longrightarrow> x \<noteq> y \<Longrightarrow> map_of sp (y, x) = Some 0"
    and "distinct chs"
  shows "mixing_matrix sp chs = Inr (identity_matrix (length chs))"
proof -
  have "map (\<lambda>y. map (\<lambda>x. if x \<noteq> y then the (map_of sp (y, x)) else 1) chs) chs
        = identity_matrix (length chs)"
  proof (rule nth_equalityI)
    show "length (map (\<lambda>y. map (\<lambda>x. if x \<noteq> y then the (map_of sp (y, x)) else 1) chs) chs)
          = length (identity_matrix (length chs))"
      by (simp add: identity_matrix_def)
  next
    fix i assume "i < length (map (\<lambda>y. map (\<lambda>x. if x \<noteq> y then the (map_of sp (y, x)) else 1) chs) chs)"
    then have i: "i < length chs" by simp
    have "map (\<lambda>x. if x \<noteq> chs ! i then the (map_of sp (chs ! i, x)) else 1) chs
          = map (\<lambda>j. if i = j then 1 else 0) [0..<length chs]"
    proof (rule nth_equalityI)
      show "length (map (\<lambda>x. if x \<noteq> chs ! i then the (map_of sp (chs ! i, x)) else 1) chs)
            = length (map (\<lambda>j. if i = j then 1 else (0::real)) [0..<length chs])"
        by simp
    next
      fix j assume "j < length (map (\<lambda>x. if x \<noteq> chs ! i then the (map_of sp (chs ! i, x)) else 1) chs)"
      then have j: "j < length chs" by simp
      have eq: "chs ! j = chs ! i \<longleftrightarrow> j = i"
        using assms(2) i j by (simp add: nth_eq_iff_index_eq)
      show "map (\<lambda>x. if x \<noteq> chs ! i then the (map_of sp (chs ! i, x)) else 1) chs ! j
            = map (\<lambda>j. if i = j then 1 else 0) [0..<length chs] ! j"
      proof (cases "j = i")
        case True
        with j show ?thesis by simp
      next
        case False
        with eq have "chs ! j \<noteq> chs ! i" by simp
        with zero[of "chs ! j" "chs ! i"] i j have "map_of sp (chs ! i, chs ! j) = Some 0"
          by simp
        with False j eq show ?thesis by auto
      qed
    qed
    with i show "map (\<lambda>y. map (\<lambda>x. if x \<noteq> y then the (map_of sp (y, x)) else 1) chs) chs ! i
                 = identity_matrix (length chs) ! i"
      by (simp add: identity_matrix_def)
  qed
  moreover have "\<forall>y \<in> set chs. \<forall>x \<in> set chs. x \<noteq> y \<longrightarrow> map_of sp (y, x) \<noteq> None"
    using zero by fastforce
  ultimately show ?thesis by (simp add: mixing_matrix_Inr_iff)
qed

lemma mixing_matrix_diagonal:
  assumes "mixing_matrix sp chs = Inr M" and "i < length chs"
  shows "M ! i ! i = 1"
  using assms by (simp add: mixing_matrix_Inr_iff)

lemma apply_op_rows:
  assumes "apply_op env sp (Some ex) = Inr r"
  obtains M where
    "mixing_matrix sp (channels_of env sp) = Inr M"
    "columns (data r) = columns (data ex)"
    "rows (data r) =
       map (\<lambda>row. assign_row (channels_of env sp)
                     (vec_mat (map row (channels_of env sp)) (pinv env M)) row)
           (rows (data ex))"
proof -
  from assms obtain a md where
    a: "mixing_matrix sp (channels_of env sp) = Inr a"
    and r: "r = ex\<lparr>data := assign_columns (channels_of env sp)
                       (dot (data ex) (channels_of env sp) (pinv env a)) (data ex),
                   metadata := md\<rparr>"
    by (rule apply_op_InrD)
  from r have "rows (data r) =
       map (\<lambda>row. assign_row (channels_of env sp)
                     (vec_mat (map row (channels_of env sp)) (pinv env a)) row)
           (rows (data ex))"
    by (simp add: rows_assign_dot)
  moreover from r have "columns (data r) = columns (data ex)"
    by (simp add: assign_columns_def)
  ultimately show thesis using a that by blast
qed

subsection \<open>Where the errors of apply come from\<close>

lemma sequence_map_Inl_D: "sequence (map f xs) = Inl e \<Longrightarrow> \<exists>x \<in> set xs. f x = Inl e"
  by (induction xs) (auto split: sum.splits)

lemma mixing_matrix_Inl_KeyError:
  assumes "mixing_matrix sp chs = Inl e"
  shows "\<exists>k. e = KeyError k"
proof -
  from assms obtain y where "mixing_row sp chs y = Inl e"
    unfolding mixing_matrix_def by (blast dest: sequence_map_Inl_D)
  then obtain x where "(if x \<noteq> y then lookup sp (y, x) else Inr 1) = Inl e"
    unfolding mixing_row_def by (blast dest: sequence_map_Inl_D)
  then show ?thesis
    by (auto simp: lookup_def split: if_splits option.splits)
qed

lemma bleedthrough_dict_Inl_KeyError:
  assumes "bleedthrough_dict sp chs c = Inl e"
  shows "\<exists>k. e = KeyError k"
proof -
  from assms obtain x where
    "(case lookup sp (x, c) of Inl e \<Rightarrow> Inl e | Inr v \<Rightarrow> Inr (x, v)) = Inl e"
    unfolding bleedthrough_dict_def by (blast dest: sequence_map_Inl_D)
  then show ?thesis
    by (auto simp: lookup_def split: option.splits)
qed

lemma set_metadata_Inl_KeyError:
  "set_metadata sp chs cs md = Inl e \<Longrightarrow> \<exists>k. e = KeyError k"
  by (induction cs arbitrary: md)
     (auto split: sum.splits option.splits dest: bleedthrough_dict_Inl_KeyError)

lemma check_key_Some_CytoflowOpError:
  "check_key df sp k = Some e \<Longrightarrow> \<exists>msg. e = CytoflowOpError msg"
  by (cases k) (auto simp: check_key_def split: if_splits)

lemma check_keys_Some_CytoflowOpError:
  "check_keys df sp ks = Some e \<Longrightarrow> \<exists>msg. e = CytoflowOpError msg"
  by (induction ks) (auto split: option.splits dest: check_key_Some_CytoflowOpError)

lemma check_keys_valid:
  "sp \<noteq> [] \<and> check_keys (data ex) sp (map fst sp) = None \<longleftrightarrow> valid_table sp ex"
proof -
  have "check_key (data ex) sp k = None \<longleftrightarrow>
          fst k \<in> set (columns (data ex)) \<and> snd k \<in> set (columns (data ex)) \<and>
          (snd k, fst k) \<in> fst ` set sp" for k
    by (cases k) (simp add: check_key_None_iff)
  then show ?thesis
    by (simp add: valid_table_def check_keys_None_iff)
qed

text \<open>
  For an experiment that is given, \<open>apply_op\<close> raises \<^verbatim>\<open>CytoflowOpError\<close> exactly when the
  table is empty, or a key names a channel that is no column, or a key lacks its mirror.
\<close>

lemma apply_op_CytoflowOpError_iff:
  "(\<exists>msg. apply_op env sp (Some ex) = Inl (CytoflowOpError msg)) \<longleftrightarrow> \<not> valid_table sp ex"
proof
  assume "\<exists>msg. apply_op env sp (Some ex) = Inl (CytoflowOpError msg)"
  then obtain msg where err: "apply_op env sp (Some ex) = Inl (CytoflowOpError msg)" ..
  show "\<not> valid_table sp ex"
  proof
    assume "valid_table sp ex"
    then have "sp \<noteq> []" "check_keys (data ex) sp (map fst sp) = None"
      using check_keys_valid by blast+
    with err show False
      by (auto simp: apply_op_def Let_def clone_def split: sum.splits
               dest: mixing_matrix_Inl_KeyError set_metadata_Inl_KeyError)
  qed
next
  assume "\<not> valid_table sp ex"
  then consider "sp = []" | e where "sp \<noteq> []" "check_keys (data ex) sp (map fst sp) = Some e"
    using check_keys_valid by fastforce
  then show "\<exists>msg. apply_op env sp (Some ex) = Inl (CytoflowOpError msg)"
  proof cases
    case 1
    then show ?thesis by (simp add: apply_op_def)
  next
    case 2
    from check_keys_Some_CytoflowOpError[OF 2(2)] 2 show ?thesis
      by (auto simp: apply_op_def)
  qed
qed

subsection \<open>Tables without their diagonal keys\<close>

lemma map_of_remove_diagonal:
  "x \<noteq> y \<Longrightarrow> map_of (remove_diagonal sp) (x, y) = map_of sp (x, y)"
  by (induction sp) (auto simp: remove_diagonal_def)

lemma keys_remove_diagonal:
  "fst ` set (remove_diagonal sp) = {k \<in> fst ` set sp. fst k \<noteq> snd k}"
  by (force simp: remove_diagonal_def)

lemma mixing_matrix_remove_diagonal:
  "mixing_matrix (remove_diagonal sp) chs = mixing_matrix sp chs"
  unfolding mixing_matrix_def mixing_row_def
  by (intro arg_cong[where f = sequence] map_cong refl)
     (auto simp: lookup_def map_of_remove_diagonal)

lemma bleedthrough_dict_remove_diagonal:
  "bleedthrough_dict (remove_diagonal sp) chs c = bleedthrough_dict sp chs c"
  unfolding bleedthrough_dict_def
  by (intro arg_cong[where f = sequence] map_cong refl)
     (auto simp: lookup_def map_of_remove_diagonal)

lemma set_metadata_remove_diagonal:
  "set_metadata (remove_diagonal sp) chs cs md = set_metadata sp chs cs md"
  by (induction cs arbitrary: md)
     (simp_all add: bleedthrough_dict_remove_diagonal split: sum.splits option.splits)

subsection \<open>The concrete tables\<close>

lemma demo_matrix: "mixing_matrix demo_table [''A'', ''B''] = Inr [[1, 1 / 2], [1 / 4, 1]]"
  by code_simp

lemma demo_zero_channels: "channels_of demo_env demo_zero_table = [''A'', ''B'']"
  by (simp add: channels_of_def demo_env_def demo_zero_table_def)

lemma demo_zero_channel_set: "channel_set demo_zero_table = {''A'', ''B''}"
  by (simp add: channel_set_def demo_zero_table_def)

subsection \<open>The metadata written by apply\<close>

text \<open>
  Claim C7. After \<open>apply_op\<close> succeeds, for every channel \<open>c\<close> of the table's channel
  set the returned metadata of \<open>c\<close> is the input's metadata of \<open>c\<close> with, under
  \<^verbatim>\<open>'linear_bleedthrough'\<close>, exactly the mapping that sends every other channel \<open>x\<close>
  of the set to \<open>spillover[(x, c)]\<close>: every such \<open>x\<close> has its entry and nothing else
  has one.
\<close>

theorem apply_metadata_audit:
  assumes ok: "apply_op env sp (Some ex) = Inr r"
    and enum: "enumerates env sp"
    and c: "c \<in> channel_set sp"
  shows "\<exists>m0. metadata ex c = Some m0 \<and>
           metadata r c =
             Some (m0\<lparr>linear_bleedthrough :=
                        Some (\<lambda>x. if x \<in> channel_set sp \<and> x \<noteq> c then map_of sp (x, c) else None)\<rparr>) \<and>
           (\<forall>x \<in> channel_set sp. x \<noteq> c \<longrightarrow> map_of sp (x, c) \<noteq> None)"
proof -
  let ?chs = "channels_of env sp"
  from enum have chs: "set ?chs = channel_set sp" by (simp add: enumerates_def)
  from ok obtain a md where
    md: "set_metadata sp ?chs ?chs (metadata ex) = Inr md"
    and r: "r = ex\<lparr>data := assign_columns ?chs (dot (data ex) ?chs (pinv env a)) (data ex),
                   metadata := md\<rparr>"
    by (rule apply_op_InrD)
  from c chs have cin: "c \<in> set ?chs" by simp
  from set_metadata_Inr[OF md, of c] cin obtain m0 where
    m0: "metadata ex c = Some m0" and mdc: "md c = Some (with_bleedthrough sp ?chs c m0)"
    by auto
  have cov: "\<forall>x \<in> channel_set sp. x \<noteq> c \<longrightarrow> map_of sp (x, c) \<noteq> None"
  proof (intro ballI impI)
    fix x assume x: "x \<in> channel_set sp" "x \<noteq> c"
    from set_metadata_Inr_dict[OF md cin]
    obtain kvs where "bleedthrough_dict sp ?chs c = Inr kvs" ..
    from bleedthrough_dict_Inr(2)[OF this] x chs show "map_of sp (x, c) \<noteq> None" by simp
  qed
  from m0 mdc r chs cov show ?thesis
    by (simp add: with_bleedthrough_def)
qed

theorem apply_metadata_audit_witness:
  "\<exists>r m d. apply_op demo_env demo_table (Some demo_experiment) = Inr r \<and>
     metadata r ''A'' = Some m \<and> linear_bleedthrough m = Some d \<and>
     d ''A'' = None \<and> d ''B'' = Some (1 / 4) \<and> d ''C'' = None"
proof -
  from demo_succeeds obtain r where
    r: "apply_op demo_env demo_table (Some demo_experiment) = Inr r" ..
  have A: "''A'' \<in> channel_set demo_table" by (simp add: demo_channel_set)
  from apply_metadata_audit[OF r demo_enumerates A, unfolded demo_channel_set] r show ?thesis
    by (auto simp: demo_table_def)
qed

subsection \<open>The corrected columns\<close>

text \<open>
  Claim C1, as the code has it. When \<open>apply_op\<close> succeeds, the mixing matrix \<open>M\<close> is
  square over the enumeration \<open>chs\<close> of the table's channel set, with \<open>1\<close> on the
  diagonal and \<open>M[row][col] = spillover[(chs[row], chs[col])]\<close> off it: the key is
  (row, column), the from-channel indexing the row. The columns \<open>chs\<close> of the returned
  data are the columns \<open>chs\<close> of the input right-multiplied by \<open>pinv M\<close>, the
  pseudoinverse of an \<open>n \<times> n\<close> matrix being \<open>n \<times> n\<close>.
\<close>

theorem apply_corrected_columns:
  assumes ok: "apply_op env sp (Some ex) = Inr r"
    and enum: "enumerates env sp"
    and chs: "chs = channels_of env sp"
    and shape: "\<And>M. mixing_matrix sp chs = Inr M \<Longrightarrow> square (length chs) (pinv env M)"
  shows "\<exists>M. mixing_matrix sp chs = Inr M \<and>
           length M = length chs \<and>
           (\<forall>i < length chs. length (M ! i) = length chs \<and>
              (\<forall>j < length chs.
                 if i = j then M ! i ! j = 1
                 else map_of sp (chs ! i, chs ! j) = Some (M ! i ! j))) \<and>
           map (\<lambda>row. map row chs) (rows (data r))
             = map (\<lambda>row. vec_mat (map row chs) (pinv env M)) (rows (data ex))"
proof -
  from enum chs have dist: "distinct chs" by (simp add: enumerates_def)
  from ok chs obtain M where
    M: "mixing_matrix sp chs = Inr M"
    and rows: "rows (data r) =
       map (\<lambda>row. assign_row chs (vec_mat (map row chs) (pinv env M)) row) (rows (data ex))"
    by (auto elim: apply_op_rows)
  from M have cov: "\<And>x y. y \<in> set chs \<Longrightarrow> x \<in> set chs \<Longrightarrow> x \<noteq> y \<Longrightarrow> map_of sp (y, x) \<noteq> None"
    and Meq: "M = map (\<lambda>y. map (\<lambda>x. if x \<noteq> y then the (map_of sp (y, x)) else 1) chs) chs"
    by (auto simp: mixing_matrix_Inr_iff)
  have entries: "length (M ! i) = length chs \<and>
              (\<forall>j < length chs.
                 if i = j then M ! i ! j = 1
                 else map_of sp (chs ! i, chs ! j) = Some (M ! i ! j))" if i: "i < length chs" for i
  proof (intro conjI allI impI)
    show "length (M ! i) = length chs" using i by (simp add: Meq)
  next
    fix j assume j: "j < length chs"
    have eq: "chs ! j = chs ! i \<longleftrightarrow> j = i"
      using dist i j by (simp add: nth_eq_iff_index_eq)
    show "if i = j then M ! i ! j = 1 else map_of sp (chs ! i, chs ! j) = Some (M ! i ! j)"
    proof (cases "i = j")
      case True
      with i show ?thesis by (simp add: Meq)
    next
      case False
      with eq have ne: "chs ! j \<noteq> chs ! i" by auto
      from cov[of "chs ! i" "chs ! j"] i j ne
      obtain v where "map_of sp (chs ! i, chs ! j) = Some v" by auto
      with False i j ne show ?thesis by (simp add: Meq)
    qed
  qed
  have len: "length (vec_mat v (pinv env M)) = length chs" for v
    by (rule length_vec_mat) (rule shape[OF M])
  have "map (\<lambda>row. map row chs) (rows (data r))
        = map (\<lambda>row. vec_mat (map row chs) (pinv env M)) (rows (data ex))"
    unfolding rows by (simp add: comp_def assign_row_selected[OF dist len])
  with M entries show ?thesis by (auto simp: Meq)
qed

theorem apply_corrected_columns_witness:
  "\<exists>r. apply_op demo_env demo_table (Some demo_experiment) = Inr r \<and>
       map (\<lambda>row. map row [''A'', ''B'']) (rows (data r)) = [[4 / 7, 12 / 7]]"
proof -
  from demo_succeeds obtain r where
    r: "apply_op demo_env demo_table (Some demo_experiment) = Inr r" ..
  have sq: "square (length [''A'', ''B'']) (pinv demo_env M)"
    if "mixing_matrix demo_table [''A'', ''B''] = Inr M" for M
    using that unfolding demo_matrix
    by (auto simp: square_def demo_env_def pinv_2x2_def)
  have dot: "map (\<lambda>row. vec_mat (map row [''A'', ''B'']) (pinv demo_env [[1, 1 / 2], [1 / 4, 1]]))
               (rows (data demo_experiment)) = [[4 / 7, 12 / 7]]"
    by code_simp
  from apply_corrected_columns[OF r demo_enumerates demo_channels[symmetric] sq] dot
  show ?thesis using r by (auto simp: demo_matrix)
qed

text \<open>
  The spec has the key the other way round, \<open>spillover[(col, row)]\<close>. With
  \<open>spillover[(A, B)] = 2\<close> and \<open>spillover[(B, A)] = 3\<close> the code builds
  \<open>[[1, 2], [3, 1]]\<close>, the spec's words give the transpose, and on the event
  \<open>(A, B) = (1, 2)\<close> the code returns \<open>(1, 0)\<close> where the spec's matrix would give
  \<open>(3/5, 1/5)\<close>.
\<close>

theorem mixing_matrix_counterexample:
  "mixing_matrix demo_asym_table (channels_of demo_env demo_asym_table) = Inr [[1, 2], [3, 1]] \<and>
   spec_mixing_matrix demo_asym_table (channels_of demo_env demo_asym_table) = [[1, 3], [2, 1]] \<and>
   (case apply_op demo_env demo_asym_table (Some demo_experiment) of
      Inl e \<Rightarrow> False
    | Inr r \<Rightarrow>
        map (\<lambda>row. map row [''A'', ''B'']) (rows (data r)) = [[1, 0]] \<and>
        map (\<lambda>row. map row [''A'', ''B'']) (rows (data r))
          \<noteq> dot (data demo_experiment) (channels_of demo_env demo_asym_table)
               (pinv demo_env
                  (spec_mixing_matrix demo_asym_table (channels_of demo_env demo_asym_table))))"
  by code_simp

subsection \<open>A table of zeros\<close>

text \<open>
  Claim C5, as the code has it. Let the table pass the checks of \<open>apply_op\<close> on the
  experiment (it is not empty, its channels are columns, every key has its mirror), have a
  key for every ordered pair of distinct channels, and let the experiment have metadata
  for its channels. If every off-diagonal coefficient is zero, the mixing matrix is the
  identity, and, the pseudoinverse of the identity being the identity, \<open>apply_op\<close>
  returns an experiment whose data equal the input's.
\<close>

theorem apply_zero_table_identity:
  assumes valid: "valid_table sp ex"
    and complete: "complete_table sp"
    and meta: "channel_set sp \<subseteq> dom (metadata ex)"
    and enum: "enumerates env sp"
    and zero: "\<forall>(k, v) \<in> set sp. fst k \<noteq> snd k \<longrightarrow> v = 0"
    and pinv: "pinv env (identity_matrix (length (channels_of env sp)))
                 = identity_matrix (length (channels_of env sp))"
  shows "mixing_matrix sp (channels_of env sp) = Inr (identity_matrix (length (channels_of env sp))) \<and>
         (\<exists>r. apply_op env sp (Some ex) = Inr r \<and> data r = data ex)"
proof -
  let ?chs = "channels_of env sp"
  from enum have dist: "distinct ?chs" and set: "set ?chs = channel_set sp"
    by (simp_all add: enumerates_def)
  have z: "map_of sp (y, x) = Some 0" if "x \<in> set ?chs" "y \<in> set ?chs" "x \<noteq> y" for x y
  proof -
    from that complete set have "(y, x) \<in> fst ` set sp"
      by (auto simp: complete_table_def)
    then obtain v where v: "map_of sp (y, x) = Some v"
      by (metis map_of_neq_None_iff not_None_eq)
    then have "((y, x), v) \<in> set sp" by (rule map_of_SomeD)
    with zero that have "v = 0" by auto
    with v show ?thesis by simp
  qed
  have M: "mixing_matrix sp ?chs = Inr (identity_matrix (length ?chs))"
    by (rule mixing_matrix_zero) (use z dist in auto)
  from apply_op_succeeds[OF valid complete meta set] obtain r where
    r: "apply_op env sp (Some ex) = Inr r" ..
  from r obtain M' where
    M': "mixing_matrix sp ?chs = Inr M'"
    and cols: "columns (data r) = columns (data ex)"
    and rows: "rows (data r) =
       map (\<lambda>row. assign_row ?chs (vec_mat (map row ?chs) (pinv env M')) row) (rows (data ex))"
    by (rule apply_op_rows)
  from M M' have "M' = identity_matrix (length ?chs)" by simp
  with rows pinv have "rows (data r) = rows (data ex)"
    by (simp add: vec_mat_identity assign_row_same)
  with cols have "data r = data ex" by simp
  with r M show ?thesis by blast
qed

theorem apply_zero_table_identity_witness:
  "\<exists>r. apply_op demo_env demo_zero_table (Some demo_experiment) = Inr r \<and>
       data r = data demo_experiment"
proof -
  have "valid_table demo_zero_table demo_experiment"
    by (simp add: valid_table_def demo_zero_table_def demo_experiment_def)
  moreover have "complete_table demo_zero_table"
    unfolding complete_table_def demo_zero_channel_set by (simp add: demo_zero_table_def)
  moreover have "channel_set demo_zero_table \<subseteq> dom (metadata demo_experiment)"
    unfolding demo_zero_channel_set by (simp add: demo_experiment_def)
  moreover have "enumerates demo_env demo_zero_table"
    by (simp add: enumerates_def demo_zero_channels demo_zero_channel_set)
  moreover have "\<forall>(k, v) \<in> set demo_zero_table. fst k \<noteq> snd k \<longrightarrow> v = 0"
    by (simp add: demo_zero_table_def)
  moreover have "pinv demo_env (identity_matrix (length (channels_of demo_env demo_zero_table)))
                 = identity_matrix (length (channels_of demo_env demo_zero_table))"
    unfolding demo_zero_channels by code_simp
  ultimately show ?thesis
    using apply_zero_table_identity[of demo_zero_table demo_experiment demo_env] by blast
qed

text \<open>
  Without these conditions the statement fails by the checks of \<open>apply_op\<close>: a table of
  zeros with both keys \<open>(A, D)\<close> and \<open>(D, A)\<close> on an experiment that has no column
  \<open>D\<close> is refused.
\<close>

theorem apply_zero_table_counterexample:
  "list_all (\<lambda>((a, b), v). (b, a) \<in> set (map fst demo_missing_table) \<and> v = 0)
            demo_missing_table \<and>
   (case apply_op demo_env demo_missing_table (Some demo_experiment) of
      Inl e \<Rightarrow> e = CytoflowOpError ''Can't find channel D in experiment''
    | Inr r \<Rightarrow> False)"
  by code_simp

subsection \<open>Copy on write\<close>

text \<open>
  Claim C8. \<open>apply_store\<close> leaves every object of the store as it was, the experiment
  passed in among them: its columns, rows and metadata are unchanged after the call. The
  experiment returned is a new object with the columns of the input, as many rows, and in
  every column that is not in the table's channel set the values of the input, row by
  row.
\<close>

theorem apply_store_copy_on_write:
  assumes run: "apply_store env sp h (Some ref) = (h', res)"
    and ref: "ref < length h"
    and enum: "enumerates env sp"
  shows "(\<forall>i < length h. h' ! i = h ! i) \<and>
         (\<forall>new. res = Inr new \<longrightarrow>
            new = length h \<and> length h' = Suc (length h) \<and>
            columns (data (h' ! new)) = columns (data (h ! ref)) \<and>
            length (rows (data (h' ! new))) = length (rows (data (h ! ref))) \<and>
            (\<forall>c. c \<notin> channel_set sp \<longrightarrow>
               column (data (h' ! new)) c = column (data (h ! ref)) c))"
proof (cases "apply_op env sp (Some (h ! ref))")
  case (Inl e)
  with run ref show ?thesis by (auto simp: apply_store_def)
next
  case (Inr r)
  with run ref have h': "h' = h @ [r]" and res: "res = Inr (length h)"
    by (auto simp: apply_store_def)
  from enum have set: "set (channels_of env sp) = channel_set sp"
    by (simp add: enumerates_def)
  from Inr obtain M where
    cols: "columns (data r) = columns (data (h ! ref))"
    and rows: "rows (data r) =
       map (\<lambda>row. assign_row (channels_of env sp)
                     (vec_mat (map row (channels_of env sp)) (pinv env M)) row)
           (rows (data (h ! ref)))"
    by (rule apply_op_rows)
  have other: "column (data r) c = column (data (h ! ref)) c" if "c \<notin> channel_set sp" for c
    using that set by (simp add: column_def rows assign_row_other)
  from rows have len: "length (rows (data r)) = length (rows (data (h ! ref)))" by simp
  from h' res cols len other show ?thesis
    by (auto simp: nth_append)
qed

theorem apply_store_copy_on_write_witness:
  "\<exists>h'. apply_store demo_env demo_table [demo_experiment] (Some 0) = (h', Inr 1) \<and>
        h' ! 0 = demo_experiment \<and>
        column (data (h' ! 1)) ''C'' = column (data demo_experiment) ''C''"
proof -
  from demo_succeeds obtain r where
    r: "apply_op demo_env demo_table (Some demo_experiment) = Inr r" ..
  then have run: "apply_store demo_env demo_table [demo_experiment] (Some 0)
                  = ([demo_experiment, r], Inr 1)"
    by (simp add: apply_store_def)
  have C: "''C'' \<notin> channel_set demo_table" by (simp add: demo_channel_set)
  from apply_store_copy_on_write[OF run _ demo_enumerates] C run show ?thesis
    by auto
qed

subsection \<open>Diagonal keys\<close>

text \<open>
  Claim C10, as the code has it. The value stored under a diagonal key \<open>(c, c)\<close> is never
  read: the diagonal of the mixing matrix is \<open>1\<close> whatever the table holds. When
  \<open>apply_op\<close> succeeds on a table, and the table without its diagonal keys is not empty
  and has the same channel enumeration, \<open>apply_op\<close> on the table without its diagonal
  keys returns the same experiment.
\<close>

theorem apply_remove_diagonal:
  assumes ok: "apply_op env sp (Some ex) = Inr r"
    and same: "channels_of env (remove_diagonal sp) = channels_of env sp"
    and ne: "remove_diagonal sp \<noteq> []"
  shows "apply_op env (remove_diagonal sp) (Some ex) = Inr r \<and>
         (\<exists>M. mixing_matrix sp (channels_of env sp) = Inr M \<and>
              (\<forall>i < length (channels_of env sp). M ! i ! i = 1))"
proof -
  let ?sp = "remove_diagonal sp"
  let ?chs = "channels_of env sp"
  from ok obtain a md where
    ck: "check_keys (data ex) sp (map fst sp) = None"
    and a: "mixing_matrix sp ?chs = Inr a"
    and md: "set_metadata sp ?chs ?chs (metadata ex) = Inr md"
    and r: "r = ex\<lparr>data := assign_columns ?chs (dot (data ex) ?chs (pinv env a)) (data ex),
                   metadata := md\<rparr>"
    by (rule apply_op_InrD)
  have ck': "check_keys (data ex) ?sp (map fst ?sp) = None"
    unfolding check_keys_None_iff
  proof
    fix k assume "k \<in> set (map fst ?sp)"
    then have k: "k \<in> fst ` set sp" "fst k \<noteq> snd k"
      using keys_remove_diagonal[of sp] by auto
    with ck have "check_key (data ex) sp k = None"
      by (auto simp: check_keys_None_iff)
    then have "fst k \<in> set (columns (data ex))" "snd k \<in> set (columns (data ex))"
      "(snd k, fst k) \<in> fst ` set sp"
      by (cases k; simp add: check_key_None_iff)+
    moreover from this k have "(snd k, fst k) \<in> fst ` set ?sp"
      unfolding keys_remove_diagonal by simp
    ultimately show "check_key (data ex) ?sp k = None"
      by (cases k) (simp add: check_key_None_iff)
  qed
  have "apply_op env ?sp (Some ex) =
        Inr (ex\<lparr>data := assign_columns (channels_of env ?sp)
                          (dot (data ex) (channels_of env ?sp) (pinv env a)) (data ex),
                 metadata := md\<rparr>)"
    by (rule apply_op_Inr_intro)
       (use ne ck' a md in \<open>simp_all add: same mixing_matrix_remove_diagonal
                                set_metadata_remove_diagonal\<close>)
  with r have "apply_op env ?sp (Some ex) = Inr r" by (simp add: same)
  moreover from a have "\<forall>i < length ?chs. a ! i ! i = 1"
    by (simp add: mixing_matrix_diagonal)
  ultimately show ?thesis using a by blast
qed

theorem apply_remove_diagonal_witness:
  "\<exists>r. apply_op demo_env demo_diag_first_table (Some demo_experiment) = Inr r \<and>
       apply_op demo_env demo_table (Some demo_experiment) = Inr r"
proof -
  have rd: "remove_diagonal demo_diag_first_table = demo_table"
    by (simp add: remove_diagonal_def demo_diag_first_table_def demo_table_def)
  have chs: "channels_of demo_env demo_diag_first_table = [''A'', ''B'']"
    by (simp add: channels_of_def demo_env_def demo_diag_first_table_def)
  have cs: "channel_set demo_diag_first_table = {''A'', ''B''}"
    by (simp add: channel_set_def demo_diag_first_table_def)
  have "\<exists>r. apply_op demo_env demo_diag_first_table (Some demo_experiment) = Inr r"
  proof (rule apply_op_succeeds)
    show "valid_table demo_diag_first_table demo_experiment"
      by (simp add: valid_table_def demo_diag_first_table_def demo_experiment_def)
    show "complete_table demo_diag_first_table"
      unfolding complete_table_def cs by (simp add: demo_diag_first_table_def)
    show "channel_set demo_diag_first_table \<subseteq> dom (metadata demo_experiment)"
      unfolding cs by (simp add: demo_experiment_def)
    show "set (channels_of demo_env demo_diag_first_table) = channel_set demo_diag_first_table"
      by (simp add: chs cs)
  qed
  then obtain r where r: "apply_op demo_env demo_diag_first_table (Some demo_experiment) = Inr r" ..
  have same: "channels_of demo_env (remove_diagonal demo_diag_first_table)
              = channels_of demo_env demo_diag_first_table"
    by (simp add: rd chs demo_channels)
  have ne: "remove_diagonal demo_diag_first_table \<noteq> []"
    by (simp add: rd demo_table_def)
  from apply_remove_diagonal[OF r same ne] r show ?thesis
    by (auto simp: rd)
qed

text \<open>
  A diagonal key is still a key for the checks and for the channel set: with the key
  \<open>(D, D)\<close> and no column \<open>D\<close> the table is refused, and without the key it is
  applied.
\<close>

theorem apply_diagonal_key_counterexample:
  "remove_diagonal demo_diag_table = demo_table \<and>
   (case apply_op demo_env demo_diag_table (Some demo_experiment) of
      Inl e \<Rightarrow> e = CytoflowOpError ''Can't find channel D in experiment''
    | Inr r \<Rightarrow> False) \<and>
   (case apply_op demo_env (remove_diagonal demo_diag_table) (Some demo_experiment) of
      Inl e \<Rightarrow> False
    | Inr r \<Rightarrow> map (\<lambda>row. map row [''A'', ''B'']) (rows (data r)) = [[4 / 7, 12 / 7]])"
  by code_simp

subsection \<open>A table that passes the checks and is not applied\<close>

lemma demo_incomplete_valid: "valid_table demo_incomplete_table demo_experiment"
  by (simp add: valid_table_def demo_incomplete_table_def demo_experiment_def)

text \<open>
  Claim C4, at a table with the keys \<open>(A, B)\<close>, \<open>(B, A)\<close>, \<open>(B, C)\<close>, \<open>(C, B)\<close> on an
  experiment with the columns \<open>A\<close>, \<open>B\<close>, \<open>C\<close>: the table is not empty, every channel
  is a column and every key has its mirror, so no
  \<^verbatim>\<open>CytoflowOpError\<close> is raised; the comprehension that builds the mixing matrix then
  looks up \<open>(A, C)\<close> and raises \<^verbatim>\<open>KeyError\<close>, where the claim has a corrected dataset
  returned.
\<close>

theorem apply_incomplete_table_KeyError:
  "demo_incomplete_table \<noteq> [] \<and>
   list_all (\<lambda>((a, b), _). a \<in> set (columns (data demo_experiment)) \<and>
                             b \<in> set (columns (data demo_experiment)) \<and>
                             (b, a) \<in> set (map fst demo_incomplete_table))
            demo_incomplete_table \<and>
   (case apply_op demo_env demo_incomplete_table (Some demo_experiment) of
      Inl e \<Rightarrow> e = KeyError [''A'', ''C'']
    | Inr r \<Rightarrow> False)"
  by code_simp

subsection \<open>The table across estimate\<close>

lemma to_loop_other:
  assumes "\<not> (fst k = f \<and> snd k \<in> set tos \<and> snd k \<noteq> f)"
  shows "map_of (fst (to_loop env f tos df sp)) k = map_of sp k"
  using assms
proof (induction tos arbitrary: df sp)
  case Nil
  show ?case by simp
next
  case (Cons t tos)
  show ?case
  proof (cases "f = t")
    case True
    have "map_of (fst (to_loop env f tos df sp)) k = map_of sp k"
      by (rule Cons.IH) (use Cons.prems in auto)
    with True show ?thesis by simp
  next
    case False
    show ?thesis
    proof (cases "fit_pair env f t df")
      case (Inl e)
      with False show ?thesis by simp
    next
      case (Inr res)
      obtain df' slope where res: "res = (df', slope)" by (cases res)
      have "k \<noteq> (f, t)" using Cons.prems False by auto
      moreover have "map_of (fst (to_loop env f tos df' (AList.update (f, t) slope sp))) k
            = map_of (AList.update (f, t) slope sp) k"
        by (rule Cons.IH) (use Cons.prems in auto)
      ultimately show ?thesis using False Inr res
        by (simp add: update_conv')
    qed
  qed
qed

lemma from_loop_other:
  assumes "\<not> (fst k \<in> set cs \<and> snd k \<in> set channels \<and> fst k \<noteq> snd k)"
  shows "map_of (fst (from_loop env ctl ex channels cs sp)) k = map_of sp k"
  using assms
proof (induction cs arbitrary: sp)
  case Nil
  show ?case by simp
next
  case (Cons c cs)
  show ?case
  proof (cases "load_control env ctl ex channels c")
    case (Inl e)
    then show ?thesis by simp
  next
    case (Inr df)
    obtain sp' res where tl: "to_loop env c channels df sp = (sp', res)"
      by (cases "to_loop env c channels df sp")
    have step: "map_of sp' k = map_of sp k"
      using to_loop_other[of k c channels env df sp] Cons.prems tl by auto
    show ?thesis
    proof (cases res)
      case None
      have "map_of (fst (from_loop env ctl ex channels cs sp')) k = map_of sp' k"
        by (rule Cons.IH) (use Cons.prems in auto)
      with Inr tl None step show ?thesis by simp
    next
      case (Some e)
      with Inr tl step show ?thesis by simp
    qed
  qed
qed

lemma columns_trim: "columns (trim c df) = columns df"
  by (simp add: trim_def Let_def)

subsection \<open>The loops of estimate, a prefix at a time\<close>

lemma fit_pair_Inr_data:
  "fit_pair env f t df = Inr (df', slope) \<Longrightarrow> df' = trim t (trim f df)"
  by (auto simp: fit_pair_def Let_def split: if_splits sum.splits)

lemma columns_data_after: "columns (data_after f ts df) = columns df"
  by (induction ts arbitrary: df) (auto simp: columns_trim)

lemma to_loop_append:
  "to_loop env f (pre @ rest) df sp =
     (case to_loop env f pre df sp of
        (sp', None) \<Rightarrow> to_loop env f rest (data_after f pre df) sp'
      | (sp', Some e) \<Rightarrow> (sp', Some e))"
proof (induction pre arbitrary: df sp)
  case Nil
  show ?case by simp
next
  case (Cons t pre)
  show ?case
  proof (cases "f = t")
    case True
    have "to_loop env f ((t # pre) @ rest) df sp = to_loop env f (pre @ rest) df sp"
      using True by simp
    also have "\<dots> = (case to_loop env f pre df sp of
        (sp', None) \<Rightarrow> to_loop env f rest (data_after f pre df) sp'
      | (sp', Some e) \<Rightarrow> (sp', Some e))"
      by (rule Cons.IH)
    also have "to_loop env f pre df sp = to_loop env f (t # pre) df sp"
      using True by simp
    also have "data_after f pre df = data_after f (t # pre) df"
      using True by simp
    finally show ?thesis .
  next
    case False
    show ?thesis
    proof (cases "fit_pair env f t df")
      case (Inl e)
      with False show ?thesis by simp
    next
      case (Inr res)
      obtain df' slope where res: "res = (df', slope)" by (cases res)
      with Inr have "df' = trim t (trim f df)" by (simp add: fit_pair_Inr_data)
      with Inr res have fit: "fit_pair env f t df = Inr (trim t (trim f df), slope)" by simp
      from False fit Cons.IH[of "trim t (trim f df)" "AList.update (f, t) slope sp"]
      show ?thesis by (simp split: prod.splits option.splits)
    qed
  qed
qed

lemma from_loop_append:
  "from_loop env ctl ex channels (pre @ rest) sp =
     (case from_loop env ctl ex channels pre sp of
        (sp', None) \<Rightarrow> from_loop env ctl ex channels rest sp'
      | (sp', Some e) \<Rightarrow> (sp', Some e))"
proof (induction pre arbitrary: sp)
  case Nil
  show ?case by simp
next
  case (Cons c pre)
  show ?case
  proof (cases "load_control env ctl ex channels c")
    case (Inl e)
    then show ?thesis by simp
  next
    case (Inr df)
    obtain sp1 res where tl: "to_loop env c channels df sp = (sp1, res)"
      by (cases "to_loop env c channels df sp")
    with Inr Cons.IH[of sp1] show ?thesis
      by (cases res) simp_all
  qed
qed

text \<open>
  What a normal run of the loop over \<open>to_channel\<close> stores for a pair: the slope over the
  rows that the trims of the pair leave of the data as the earlier pairs left it.
\<close>

lemma fit_pair_Inr_slope:
  "fit_pair env f t df = Inr (df', slope) \<Longrightarrow> slope = spec_coefficient env df f t"
  by (auto simp: fit_pair_def spec_coefficient_def polyfit_def Let_def split: if_splits)

lemma to_loop_stored_coefficient:
  assumes run: "to_loop env f (pre @ t # post) df sp = (sp', None)"
    and ne: "f \<noteq> t"
    and last: "t \<notin> set post"
  shows "map_of sp' (f, t) = Some (spec_coefficient env (data_after f pre df) f t)"
proof -
  obtain sp1 res1 where pre: "to_loop env f pre df sp = (sp1, res1)"
    by (cases "to_loop env f pre df sp")
  with run have res1: "res1 = None"
    by (cases res1) (simp_all add: to_loop_append)
  with run pre have rest: "to_loop env f (t # post) (data_after f pre df) sp1 = (sp', None)"
    by (simp add: to_loop_append)
  let ?df = "data_after f pre df"
  from rest ne obtain df2 slope where
    fit: "fit_pair env f t ?df = Inr (df2, slope)"
    and post: "to_loop env f post df2 (AList.update (f, t) slope sp1) = (sp', None)"
    by (auto split: sum.splits)
  have "map_of (fst (to_loop env f post df2 (AList.update (f, t) slope sp1))) (f, t)
        = map_of (AList.update (f, t) slope sp1) (f, t)"
    by (rule to_loop_other) (use last in simp)
  with post have "map_of sp' (f, t) = Some slope"
    by (simp add: update_conv')
  with fit_pair_Inr_slope[OF fit] show ?thesis by simp
qed

text \<open>
  Claim C9. \<open>estimate\<close> never clears the table: an entry \<open>(from, to)\<close> whose channels
  are not both among the control channels is after the call what it was before it,
  present with the same value if it was present. This holds for every exit of the call,
  the normal return included.
\<close>

theorem estimate_keeps_other_entries:
  assumes "estimate env ctl experiment sp = (sp', res)"
    and "\<not> (from_channel \<in> fst ` set ctl \<and> to_channel \<in> fst ` set ctl)"
  shows "map_of sp' (from_channel, to_channel) = map_of sp (from_channel, to_channel)"
proof -
  have "map_of (fst (from_loop env ctl ex (map fst ctl) (map fst ctl) sp)) (from_channel, to_channel)
        = map_of sp (from_channel, to_channel)" for ex
    by (rule from_loop_other) (use assms(2) in auto)
  from this[of "the experiment"] assms(1) show ?thesis
    by (auto simp: estimate_def Let_def split: option.splits if_splits)
qed

theorem estimate_keeps_other_entries_witness:
  "estimate tube_env demo_controls (Some demo_experiment) [((''A'', ''C''), 7)]
     = ([((''A'', ''C''), 7), ((''A'', ''B''), 1 / 10), ((''B'', ''A''), 10)], None) \<and>
   map_of [((''A'', ''C''), 7), ((''A'', ''B''), 1 / 10), ((''B'', ''A''), 10)] (''A'', ''C'')
     = Some (7 :: real)"
proof -
  have run: "estimate tube_env demo_controls (Some demo_experiment) [((''A'', ''C''), 7)]
     = ([((''A'', ''C''), 7), ((''A'', ''B''), 1 / 10), ((''B'', ''A''), 10)], None)"
    by code_simp
  have "\<not> (''A'' \<in> fst ` set demo_controls \<and> ''C'' \<in> fst ` set demo_controls)"
    by (simp add: demo_controls_def)
  from estimate_keeps_other_entries[OF run this] run show ?thesis by simp
qed

subsection \<open>A fit with no rows left\<close>

text \<open>
  Claim C3, as the code has it. Let \<open>estimate\<close> pass its checks and reach the pair of
  distinct channels \<open>(from_channel, to_channel)\<close>: the controls before \<open>from_channel\<close>
  are done without a raise, the control of \<open>from_channel\<close> is loaded with both channels
  among its columns, and the channels before \<open>to_channel\<close> are fitted without a raise.
  If the trim on \<open>from_channel\<close> followed by the trim on \<open>to_channel\<close> leaves no row
  of the data, \<open>estimate\<close> ends with the \<^verbatim>\<open>TypeError\<close> of \<^verbatim>\<open>np.polyfit\<close>, which
  names no channel, and the table is as the earlier pairs wrote it: no slope is stored for
  the pair.
\<close>

theorem estimate_empty_trim_TypeError:
  assumes checks: "2 \<le> length ctl" "check_files env ctl (map fst ctl) = None"
    and from_split: "map fst ctl = from_done @ from_channel # from_rest"
    and from_done: "from_loop env ctl ex (map fst ctl) from_done sp = (sp1, None)"
    and control: "load_control env ctl ex (map fst ctl) from_channel = Inr df"
    and to_split: "map fst ctl = to_done @ to_channel # to_rest"
    and to_done: "to_loop env from_channel to_done df sp1 = (sp2, None)"
    and pair: "from_channel \<noteq> to_channel" "to_channel \<in> set (columns df)"
      "from_channel \<in> set (columns df)"
    and empty: "rows (trim to_channel (trim from_channel (data_after from_channel to_done df))) = []"
  shows "estimate env ctl (Some ex) sp
           = (sp2, Some (TypeError ''expected non-empty vector for x''))"
proof -
  let ?chs = "map fst ctl"
  let ?err = "Some (TypeError ''expected non-empty vector for x'')"
  have "to_loop env from_channel (to_channel # to_rest) (data_after from_channel to_done df) sp2
        = (sp2, ?err)"
    using pair empty
    by (simp add: fit_pair_def columns_trim columns_data_after polyfit_def column_def Let_def)
  with to_done have "to_loop env from_channel (to_done @ to_channel # to_rest) df sp1 = (sp2, ?err)"
    by (simp add: to_loop_append)
  with to_split have "to_loop env from_channel ?chs df sp1 = (sp2, ?err)" by simp
  with control have "from_loop env ctl ex ?chs (from_channel # from_rest) sp1 = (sp2, ?err)"
    by simp
  with from_done have "from_loop env ctl ex ?chs (from_done @ from_channel # from_rest) sp = (sp2, ?err)"
    by (simp add: from_loop_append)
  with from_split have "from_loop env ctl ex ?chs ?chs sp = (sp2, ?err)" by simp
  with checks show ?thesis by (simp add: estimate_def Let_def)
qed

theorem estimate_empty_trim_TypeError_witness:
  "estimate demo_env demo_controls (Some demo_experiment) []
     = ([], Some (TypeError ''expected non-empty vector for x''))"
proof (rule estimate_empty_trim_TypeError[where from_done = "[]" and from_channel = "''A''"
          and from_rest = "[''B'']" and to_done = "[''A'']" and to_channel = "''B''"
          and to_rest = "[]" and ?sp1.0 = "[]" and df = "data demo_experiment"])
  show "2 \<le> length demo_controls" by (simp add: demo_controls_def)
  show "check_files demo_env demo_controls (map fst demo_controls) = None"
    by (simp add: demo_controls_def demo_env_def)
  show "map fst demo_controls = [] @ ''A'' # [''B'']" by (simp add: demo_controls_def)
  show "from_loop demo_env demo_controls demo_experiment (map fst demo_controls) [] [] = ([], None)"
    by simp
  show "load_control demo_env demo_controls demo_experiment (map fst demo_controls) ''A''
        = Inr (data demo_experiment)"
    by (simp add: load_control_def demo_controls_def demo_env_def demo_experiment_def no_meta_def)
  show "map fst demo_controls = [''A''] @ ''B'' # []" by (simp add: demo_controls_def)
  show "to_loop demo_env ''A'' [''A''] (data demo_experiment) [] = ([], None)" by simp
  show "''A'' \<noteq> ''B''" by simp
  show "''B'' \<in> set (columns (data demo_experiment))" by (simp add: demo_experiment_def)
  show "''A'' \<in> set (columns (data demo_experiment))" by (simp add: demo_experiment_def)
  show "rows (trim ''B'' (trim ''A'' (data_after ''A'' [''A''] (data demo_experiment)))) = []"
    by code_simp
qed

text \<open>
  The source has no error of its own for this case: a control of one event leaves no row
  after the trims, and \<open>estimate\<close> ends with the \<^verbatim>\<open>TypeError\<close>, not with a
  \<^verbatim>\<open>CytoflowOpError\<close>.
\<close>

theorem estimate_empty_trim_counterexample:
  "rows (trim ''B'' (trim ''A'' (data demo_experiment))) = [] \<and>
   estimate demo_env demo_controls (Some demo_experiment) []
     = ([], Some (TypeError ''expected non-empty vector for x''))"
  by code_simp

subsection \<open>The rows of a fit\<close>

text \<open>
  With a single \<open>to_channel\<close> the loop stores the coefficient the spec describes.
\<close>

lemma to_loop_single_pair:
  assumes "from_channel \<noteq> to_channel"
    and "from_channel \<in> set (columns df)"
    and "to_channel \<in> set (columns df)"
    and "rows (trim to_channel (trim from_channel df)) \<noteq> []"
  shows "to_loop env from_channel [to_channel] df sp
           = (AList.update (from_channel, to_channel)
                (spec_coefficient env df from_channel to_channel) sp, None)"
  using assms
  by (simp add: fit_pair_def columns_trim polyfit_def column_def spec_coefficient_def Let_def)

text \<open>
  Claim C2 at three controls \<open>A\<close>, \<open>B\<close>, \<open>C\<close>, each loading the control of eleven
  events. The loop over \<open>to_channel\<close> stores the trimmed frame back into \<^verbatim>\<open>data\<close>, so
  the fit of \<open>(A, C)\<close> starts from the rows left by the fit of \<open>(A, B)\<close>: it is over the
  three rows that survive the trims on \<open>A\<close>, \<open>B\<close>, \<open>A\<close>, \<open>C\<close>, and \<open>estimate\<close> stores
  the slope \<open>9/130\<close>. The two trims of the claim, on \<open>A\<close> then on \<open>C\<close> of the loaded
  control, leave seven rows, whose slope is \<open>-3/1460\<close>.
\<close>

theorem estimate_trims_accumulate:
  "map_of (fst (estimate tube_env demo_controls3 (Some demo_experiment) [])) (''A'', ''C'')
     = Some (9 / 130) \<and>
   (case load_control tube_env demo_controls3 demo_experiment (map fst demo_controls3) ''A'' of
      Inl e \<Rightarrow> False
    | Inr control \<Rightarrow> spec_coefficient tube_env control ''A'' ''C'' = - (3 / 1460))"
  by code_simp

end
